theory Spec2Isabelle
  imports Main "HOL-Library.AList" "HOL-Library.Sublist" "HOL-Library.Multiset"
    "HOL-Library.Product_Lexorder"
begin

section \<open>Python strings\<close>

text \<open>
  Strings are lists of 8-bit characters, read as the code points below 256. The
  predicates below are Python's \<^verbatim>\<open>str.isspace\<close>, \<^verbatim>\<open>str.isalnum\<close> and
  \<^verbatim>\<open>str.lower\<close> on that range.
\<close>

definition is_space :: "char \<Rightarrow> bool" where
  "is_space c = (let n = (of_char c :: nat) in
     (9 \<le> n \<and> n \<le> 13) \<or> (28 \<le> n \<and> n \<le> 32) \<or> n = 133 \<or> n = 160)"

definition strip :: "string \<Rightarrow> string" where
  "strip s = rev (dropWhile is_space (rev (dropWhile is_space s)))"

definition is_digit :: "char \<Rightarrow> bool" where
  "is_digit c = (let n = (of_char c :: nat) in 48 \<le> n \<and> n \<le> 57)"





text \<open>\<^verbatim>\<open>needle in haystack\<close> on strings: a contiguous occurrence.\<close>

fun py_in :: "string \<Rightarrow> string \<Rightarrow> bool" where
  "py_in needle [] = (needle = [])"
| "py_in needle (c # cs) = (prefix needle (c # cs) \<or> py_in needle cs)"

text \<open>
  \<^verbatim>\<open>int(s)\<close> on a string: surrounding whitespace is dropped, one sign is allowed,
  and the rest must be a non-empty run of decimal digits; anything else raises
  \<^verbatim>\<open>ValueError\<close>, which is \<open>None\<close> here. (A label never holds \<^verbatim>\<open>_\<close> at this point,
  so digit grouping does not arise; the interpreter's optional limit on the number of
  digits is left out.)
\<close>

definition digits_val :: "string \<Rightarrow> nat" where
  "digits_val s = foldl (\<lambda>a c. 10 * a + ((of_char c :: nat) - 48)) 0 s"

definition all_digits :: "string \<Rightarrow> bool" where
  "all_digits s = (s \<noteq> [] \<and> list_all is_digit s)"

definition py_int :: "string \<Rightarrow> int option" where
  "py_int s = (case strip s of
       [] \<Rightarrow> None
     | c # cs \<Rightarrow>
         if c = CHR ''-'' then (if all_digits cs then Some (- int (digits_val cs)) else None)
         else if c = CHR ''+'' then (if all_digits cs then Some (int (digits_val cs)) else None)
         else if all_digits (c # cs) then Some (int (digits_val (c # cs))) else None)"

text \<open>\<^verbatim>\<open>str(n)\<close> for a natural number.\<close>

fun str_nat :: "nat \<Rightarrow> string" where
  "str_nat n = (if n < 10 then [char_of (48 + n)]
                else str_nat (n div 10) @ [char_of (48 + n mod 10)])"

declare str_nat.simps [simp del]

text \<open>A value used as a condition: \<^verbatim>\<open>None\<close> and the empty string are false.\<close>

fun truthy :: "string option \<Rightarrow> bool" where
  "truthy None = False"
| "truthy (Some s) = (s \<noteq> [])"

section \<open>The question catalog\<close>

text \<open>
  An entry of \<^verbatim>\<open>self.questions\<close>. The key \<^verbatim>\<open>old_id\<close> exists only on entries made
  from the old file structure. The two display titles of an entry are never read by
  the sequencing and are not carried.
\<close>

record question_data =
  question :: string
  category :: string
  subcategory :: string
  label :: string
  old_id :: "string option"

text \<open>The dictionary that \<^verbatim>\<open>_get_available_questions\<close> builds for a question.\<close>

record q_dict =
  q_id :: string
  q_question :: string
  q_category :: string
  q_subcategory :: string
  q_label :: string

text \<open>
  The fields of the engine that sequencing reads. Dictionaries keep insertion order,
  so they are association lists; a lookup is \<^const>\<open>map_of\<close>.
\<close>

record engine =
  questions :: "(string \<times> question_data) list"
  dependencies :: "(string \<times> string list) list"
  priorities :: "(string \<times> int) list"
  flow_order :: "string list"

definition MAX_QUESTIONS :: nat where
  "MAX_QUESTIONS = 2"

text \<open>\<^verbatim>\<open>self.dependencies.get(question_label, [])\<close>\<close>

definition deps_of :: "engine \<Rightarrow> string \<Rightarrow> string list" where
  "deps_of e question_label =
     (case map_of (dependencies e) question_label of None \<Rightarrow> [] | Some deps \<Rightarrow> deps)"

text \<open>\<^verbatim>\<open>all(dep in answered_questions for dep in deps)\<close>\<close>

definition deps_satisfied :: "engine \<Rightarrow> string set \<Rightarrow> string \<Rightarrow> bool" where
  "deps_satisfied e answered question_label =
     list_all (\<lambda>dep. dep \<in> answered) (deps_of e question_label)"

definition mk_q_dict :: "string \<Rightarrow> question_data \<Rightarrow> q_dict" where
  "mk_q_dict question_label qd =
     \<lparr>q_id = question_label, q_question = question qd, q_category = category qd,
      q_subcategory = subcategory qd, q_label = question_label\<rparr>"

text \<open>
  The loop of \<^verbatim>\<open>_get_available_questions\<close> over \<^verbatim>\<open>self.questions.items()\<close>, with the
  list \<^verbatim>\<open>available\<close> built so far; the \<^verbatim>\<open>break\<close> is the branch that returns.
\<close>

fun available_loop ::
  "engine \<Rightarrow> string set \<Rightarrow> (string \<times> question_data) list \<Rightarrow> q_dict list \<Rightarrow> q_dict list"
where
  "available_loop e answered [] available = available"
| "available_loop e answered ((question_label, qd) # rest) available =
     (if question_label \<in> answered then available_loop e answered rest available
      else if deps_satisfied e answered question_label then
        (let available' = available @ [mk_q_dict question_label qd]
         in if length available' \<ge> MAX_QUESTIONS then available'
            else available_loop e answered rest available')
      else available_loop e answered rest available)"

definition get_available_questions :: "engine \<Rightarrow> string set \<Rightarrow> q_dict list" where
  "get_available_questions e answered =
     (if card answered \<ge> MAX_QUESTIONS then []
      else available_loop e answered (questions e) [])"

subsection \<open>Ordering\<close>

text \<open>
  \<^verbatim>\<open>{cat: idx for idx, cat in enumerate(self.flow_order)}\<close>: a later occurrence of a
  category overwrites an earlier one.
\<close>

definition category_order_map :: "engine \<Rightarrow> string \<Rightarrow> int option" where
  "category_order_map e =
     map_of (rev (zip (flow_order e) (map int [0 ..< length (flow_order e)])))"

text \<open>\<^verbatim>\<open>question_label.split("_")[1]\<close>, for a label that holds an underscore.\<close>

definition split_second :: "string \<Rightarrow> string" where
  "split_second s =
     takeWhile (\<lambda>c. c \<noteq> CHR ''_'') (tl (dropWhile (\<lambda>c. c \<noteq> CHR ''_'') s))"

definition q_num_of :: "string \<Rightarrow> int" where
  "q_num_of question_label =
     (if CHR ''_'' \<in> set question_label
      then (case py_int (split_second question_label) of Some n \<Rightarrow> n | None \<Rightarrow> 999)
      else 999)"

text \<open>The inner function \<^verbatim>\<open>sort_key\<close> of \<^verbatim>\<open>_sort_questions_by_order\<close>.\<close>

definition sort_key_q :: "engine \<Rightarrow> q_dict \<Rightarrow> int \<times> int \<times> int" where
  "sort_key_q e q =
     (let question_label = q_id q;
          category_order = (case category_order_map e (q_category q) of
                              Some i \<Rightarrow> i | None \<Rightarrow> 999);
          priority = (case map_of (priorities e) question_label of
                        Some p \<Rightarrow> p | None \<Rightarrow> 999)
      in (category_order, priority, q_num_of question_label))"

text \<open>
  \<^verbatim>\<open>sorted(questions, key=sort_key)\<close>: tuples compare lexicographically, and the
  sort is stable, as the insertion sort \<^const>\<open>sort_key\<close> is.
\<close>

definition sort_questions_by_order :: "engine \<Rightarrow> q_dict list \<Rightarrow> q_dict list" where
  "sort_questions_by_order e qs = sort_key (sort_key_q e) qs"

text \<open>
  \<^verbatim>\<open>_judge_next_question\<close>; the conversation history and the current answers are
  parameters that the body never reads.
\<close>

definition judge_next_question ::
  "engine \<Rightarrow> q_dict list \<Rightarrow> (string \<times> string) list \<Rightarrow> (string \<times> string) list \<Rightarrow> string option"
where
  "judge_next_question e available_questions conversation_history current_answers =
     (if available_questions = [] then None
      else (case sort_questions_by_order e available_questions of
              [] \<Rightarrow> None
            | selected_q # _ \<Rightarrow> Some (q_id selected_q)))"

section \<open>Session state and the workflow\<close>

text \<open>
  A message is a plain string (as kept in the session dictionary) or one of the two
  message objects of the workflow.
\<close>

datatype message = Text string | HumanMessage string | AIMessage string

fun content :: "message \<Rightarrow> string" where
  "content (Text s) = s"
| "content (HumanMessage s) = s"
| "content (AIMessage s) = s"

fun is_human :: "message \<Rightarrow> bool" where
  "is_human (HumanMessage s) = True"
| "is_human m = False"

text \<open>
  The session dictionary; a key that is absent reads as its default (the empty set,
  the empty dictionary, \<^verbatim>\<open>None\<close>). The workflow state adds the completion flag.
  The embeddings of the answers come from an external model and are not carried.
\<close>

record session_state =
  messages :: "message list"
  answered_questions :: "string set"
  asked_questions :: "string set"
  answers :: "(string \<times> string) list"
  current_question_id :: "string option"

record QuestionFlowState = session_state +
  flow_complete :: bool

text \<open>
  \<^verbatim>\<open>_select_question_node\<close>, with the judge as a parameter: the node's checks after
  the judge's proposal do not depend on how the proposal was made.
\<close>

definition select_question_node_with ::
  "(q_dict list \<Rightarrow> (string \<times> string) list \<Rightarrow> (string \<times> string) list \<Rightarrow> string option) \<Rightarrow>
   engine \<Rightarrow> QuestionFlowState \<Rightarrow> QuestionFlowState"
where
  "select_question_node_with judge e state0 =
     (let answered = answered_questions state0 \<union> fst ` set (answers state0);
          state = state0\<lparr>answered_questions := answered\<rparr>;
          available = get_available_questions e answered
      in if available = [] then state\<lparr>flow_complete := True, current_question_id := None\<rparr>
         else
           (let conversation_history = answers state;
                proposed = judge available conversation_history (answers state);
                (available, selected_id) =
                  (case proposed of
                     Some sid \<Rightarrow>
                       if sid \<noteq> [] \<and> sid \<in> answered then
                         (let available = filter (\<lambda>q. q_id q \<noteq> sid) available
                          in if available \<noteq> [] then
                               (case sort_questions_by_order e available of
                                  q # _ \<Rightarrow> (available, Some (q_id q))
                                | [] \<Rightarrow> (available, None))
                             else (available, None))
                       else (available, proposed)
                   | None \<Rightarrow> (available, proposed))
            in if truthy selected_id \<and> selected_id \<in> Some ` set (map q_id available)
               then state\<lparr>current_question_id := selected_id\<rparr>
               else (case sort_questions_by_order e available of
                       q # _ \<Rightarrow> state\<lparr>current_question_id := Some (q_id q)\<rparr>
                     | [] \<Rightarrow> state\<lparr>current_question_id := None, flow_complete := True\<rparr>)))"

definition select_question_node :: "engine \<Rightarrow> QuestionFlowState \<Rightarrow> QuestionFlowState" where
  "select_question_node e = select_question_node_with (judge_next_question e) e"

definition ask_question_node :: "engine \<Rightarrow> QuestionFlowState \<Rightarrow> QuestionFlowState" where
  "ask_question_node e state =
     (case current_question_id state of
        None \<Rightarrow> state
      | Some question_id \<Rightarrow>
          if question_id = [] then state
          else (case map_of (questions e) question_id of
                  None \<Rightarrow> state
                | Some qd \<Rightarrow>
                    state\<lparr>messages := messages state @ [AIMessage (question qd)],
                          asked_questions := insert question_id (asked_questions state)\<rparr>))"

text \<open>
  The first catalog entry whose text is the given text or whose first 50 characters
  occur in it (the inner loop of the search through the message history).
\<close>

definition match_question :: "engine \<Rightarrow> string \<Rightarrow> string option" where
  "match_question e question_text =
     map_option fst
       (find (\<lambda>(q_id, q_data). question q_data = question_text \<or>
                                py_in (take 50 (question q_data)) question_text)
             (questions e))"

text \<open>
  The search of \<^verbatim>\<open>_process_answer_node\<close> from the newest message backwards; it stops
  at the first question message that yields a non-empty label.
\<close>

fun history_search :: "engine \<Rightarrow> message list \<Rightarrow> string option \<Rightarrow> string option" where
  "history_search e [] question_id = question_id"
| "history_search e (AIMessage question_text # older) question_id =
     (let question_id' = (case match_question e question_text of
                            Some q \<Rightarrow> Some q | None \<Rightarrow> question_id)
      in if truthy question_id' then question_id' else history_search e older question_id')"
| "history_search e (m # older) question_id = history_search e older question_id"

definition process_answer_node :: "engine \<Rightarrow> QuestionFlowState \<Rightarrow> QuestionFlowState" where
  "process_answer_node e state =
     (if messages state = [] then state
      else (case find is_human (rev (messages state)) of
              None \<Rightarrow> state
            | Some last_user_message \<Rightarrow>
                (let answer = content last_user_message;
                     question_id =
                       (if truthy (current_question_id state) then current_question_id state
                        else history_search e (rev (messages state)) (current_question_id state));
                     state = state\<lparr>current_question_id := question_id\<rparr>
                 in (case question_id of
                       None \<Rightarrow> state
                     | Some qid \<Rightarrow>
                         if qid = [] then state
                         else state\<lparr>answers := AList.update qid answer (answers state),
                                    answered_questions := insert qid (answered_questions state)\<rparr>))))"

definition check_completion_node :: "engine \<Rightarrow> QuestionFlowState \<Rightarrow> QuestionFlowState" where
  "check_completion_node e state =
     (let available = get_available_questions e (answered_questions state)
      in if available = [] then state\<lparr>flow_complete := True\<rparr>
         else state\<lparr>flow_complete := False\<rparr>)"

text \<open>
  The compiled graph: process the answer, select, ask, check completion; both outcomes
  of \<^verbatim>\<open>_should_continue\<close> end the run.
\<close>

definition workflow :: "engine \<Rightarrow> QuestionFlowState \<Rightarrow> QuestionFlowState" where
  "workflow e state =
     check_completion_node e (ask_question_node e (select_question_node e (process_answer_node e state)))"

section \<open>The controller\<close>

text \<open>\<^verbatim>\<open>{**a, **b}\<close>: the entries of \<open>a\<close>, overwritten and extended by those of \<open>b\<close>.\<close>

definition dict_merge :: "(string \<times> 'v) list \<Rightarrow> (string \<times> 'v) list \<Rightarrow> (string \<times> 'v) list" where
  "dict_merge a b = fold (\<lambda>(k, v). AList.update k v) b a"

text \<open>
  What \<^verbatim>\<open>self.workflow.get_state(config)\<close> gives: the call raises, or it returns no
  values, or it returns the values stored for the thread.
\<close>

datatype memory = Unavailable | No_State | Stored QuestionFlowState

text \<open>
  The merge of \<^verbatim>\<open>process_message\<close> between the state prepared for this call and the
  state found in the workflow's memory.
\<close>

definition merge_memory ::
  "QuestionFlowState \<Rightarrow> QuestionFlowState \<Rightarrow> string \<Rightarrow> QuestionFlowState"
where
  "merge_memory initial_state existing user_message =
     (let answered1 =
            (if answered_questions existing \<noteq> {}
             then answered_questions initial_state \<union> answered_questions existing
             else answered_questions initial_state);
          (answers1, answered2) =
            (if answers existing \<noteq> [] then
               (let merged_answers = dict_merge (answers existing) (answers initial_state)
                in (merged_answers, answered1 \<union> fst ` set merged_answers))
             else (answers initial_state, answered1));
          current =
            (if \<not> truthy (current_question_id initial_state) \<and>
                truthy (current_question_id existing)
             then current_question_id existing
             else current_question_id initial_state);
          msgs =
            (if messages existing \<noteq> [] then messages existing @ [HumanMessage user_message]
             else [HumanMessage user_message])
      in initial_state\<lparr>messages := msgs, answered_questions := answered2,
                        answers := answers1, current_question_id := current\<rparr>)"

record flow_result =
  response :: string
  next_question :: "string option"
  r_flow_complete :: bool
  answered_count :: nat
  total_questions :: nat
  r_session_state :: session_state
  r_current_question_id :: "string option"
  error :: "string option"

definition fresh_session :: session_state where
  "fresh_session =
     \<lparr>messages = [], answered_questions = {}, asked_questions = {}, answers = [],
      current_question_id = None\<rparr>"

definition greeting :: string where
  "greeting = ''Hello! I'' @ [CHR 0x27] @
     ''m your Medical Assistant. I'' @ [CHR 0x27] @
     ''ll guide you through a structured consultation. Are you ready to begin?''"

text \<open>The first interaction: nothing answered and no question pending.\<close>

definition first_interaction :: "engine \<Rightarrow> string \<Rightarrow> session_state \<Rightarrow> flow_result" where
  "first_interaction e user_message session =
     (case sort_questions_by_order e (get_available_questions e {}) of
        first_question # _ \<Rightarrow>
          (let question_text = q_question first_question;
               first_q_id = q_id first_question;
               session' = session\<lparr>messages := messages session @ [Text user_message, Text question_text],
                                   current_question_id := Some first_q_id,
                                   asked_questions := insert first_q_id (asked_questions session)\<rparr>
           in \<lparr>response = question_text, next_question = Some question_text,
               r_flow_complete = False, answered_count = 0,
               total_questions = length (questions e), r_session_state = session',
               r_current_question_id = Some first_q_id, error = None\<rparr>)
      | [] \<Rightarrow>
          \<lparr>response = greeting, next_question = None, r_flow_complete = False,
           answered_count = 0, total_questions = length (questions e),
           r_session_state = session, r_current_question_id = None,
           error = Some (''Error: No questions available. Questions file loaded: '' @
                         str_nat (length (questions e)) @ '' questions found.'')\<rparr>)"

text \<open>The state handed to the workflow on a later interaction.\<close>

definition record_pending :: "string \<Rightarrow> session_state \<Rightarrow> session_state" where
  "record_pending user_message session =
     (case current_question_id session of
        None \<Rightarrow> session
      | Some current_q_id \<Rightarrow>
          if current_q_id = [] then session
          else if current_q_id \<notin> answered_questions session then
            session\<lparr>answers := AList.update current_q_id user_message (answers session),
                    answered_questions := insert current_q_id (answered_questions session)\<rparr>
          else session\<lparr>answers := AList.update current_q_id user_message (answers session)\<rparr>)"

definition initial_state_of :: "memory \<Rightarrow> string \<Rightarrow> session_state \<Rightarrow> QuestionFlowState" where
  "initial_state_of mem user_message session =
     (let initial_state =
            \<lparr>messages = messages session @ [HumanMessage user_message],
             answered_questions = answered_questions session,
             asked_questions = {},
             answers = answers session,
             current_question_id = current_question_id session,
             flow_complete = False\<rparr>
      in case mem of
           Unavailable \<Rightarrow> initial_state\<lparr>messages := [HumanMessage user_message]\<rparr>
         | No_State \<Rightarrow> initial_state
         | Stored existing \<Rightarrow> merge_memory initial_state existing user_message)"

definition later_interaction ::
  "engine \<Rightarrow> memory \<Rightarrow> string \<Rightarrow> session_state \<Rightarrow> flow_result"
where
  "later_interaction e mem user_message session0 =
     (let session = record_pending user_message session0;
          final_state = workflow e (initial_state_of mem user_message session);
          msgs = messages final_state;
          response_text = (case rev msgs of AIMessage t # _ \<Rightarrow> t | _ \<Rightarrow> []);
          next_question = (case rev msgs of AIMessage t # _ \<Rightarrow> Some t | _ \<Rightarrow> None);
          answered_set = answered_questions final_state \<union> fst ` set (answers final_state);
          current_q_id =
            (if current_question_id final_state = None \<and> response_text \<noteq> []
             then match_question e response_text
             else current_question_id final_state);
          session' = session\<lparr>answered_questions := answered_set,
                              answers := answers final_state,
                              current_question_id := current_q_id,
                              messages := map (\<lambda>m. Text (content m)) msgs\<rparr>
      in \<lparr>response = response_text, next_question = next_question,
          r_flow_complete = flow_complete final_state,
          answered_count = card (answered_questions final_state),
          total_questions = length (questions e), r_session_state = session',
          r_current_question_id = current_q_id, error = None\<rparr>)"

text \<open>
  \<^verbatim>\<open>process_message\<close>. The calls into the language model, the embedding model and
  the graph runtime are the only places that can raise inside its \<^verbatim>\<open>try\<close>; they are
  outside this model, so the \<^verbatim>\<open>except\<close> branch has no counterpart here.
\<close>

definition process_message ::
  "engine \<Rightarrow> memory \<Rightarrow> string \<Rightarrow> session_state option \<Rightarrow> flow_result"
where
  "process_message e mem user_message session_opt =
     (let session = (case session_opt of None \<Rightarrow> fresh_session | Some s \<Rightarrow> s);
          is_first_interaction =
            (card (answered_questions session) = 0 \<and> current_question_id session = None)
      in if is_first_interaction then first_interaction e user_message session
         else later_interaction e mem user_message session)"

text \<open>
  A session as its caller drives it: each call gets the session state that the call
  before it returned. The list holds, for every call, what the workflow's memory gives
  and the user's message.
\<close>

fun run_session ::
  "engine \<Rightarrow> session_state \<Rightarrow> (memory \<times> string) list \<Rightarrow> flow_result list"
where
  "run_session e session [] = []"
| "run_session e session ((mem, user_message) # later) =
     (let result = process_message e mem user_message (Some session)
      in result # run_session e (r_session_state result) later)"

section \<open>Loading the catalog\<close>

text \<open>
  The questions file, after \<^verbatim>\<open>json.load\<close>. Each field has the JSON type the loader
  expects of it; a key that is absent from the file reads as \<open>None\<close> or as the empty
  default the loader passes to \<^verbatim>\<open>get\<close>.
\<close>

record subcategory_data =
  subcat_title :: string
  subcat_questions :: "(string \<times> string) list"

record category_data =
  cat_title :: string
  subcategories :: "(string \<times> subcategory_data) list option"

record old_question =
  oq_id :: string
  oq_category :: string
  oq_question :: string
  oq_dependencies :: "string list"
  oq_priority :: "int option"

record questions_doc =
  doc_categories :: "(string \<times> category_data) list option"
  doc_questions :: "old_question list"
  doc_question_dependencies :: "(string \<times> string list) list"
  doc_question_priorities :: "(string \<times> int) list"
  doc_flow_order :: "string list"

datatype questions_file = Missing | Unparseable | Document questions_doc

datatype load_error = FileNotFoundError | JSONDecodeError

text \<open>\<^verbatim>\<open>_load_questions\<close>\<close>

fun load_questions :: "questions_file \<Rightarrow> load_error + questions_doc" where
  "load_questions Missing = Inl FileNotFoundError"
| "load_questions Unparseable = Inl JSONDecodeError"
| "load_questions (Document d) = Inr d"

definition category_to_label :: "(string \<times> string) list" where
  "category_to_label =
     [(''introduction'', ''A''), (''demographics'', ''B''), (''chief_complaint'', ''C''),
      (''history_of_present_illness'', ''D''), (''past_medical_history'', ''E''),
      (''medications'', ''F''), (''allergies'', ''G''), (''family_history'', ''H''),
      (''social_history'', ''I''), (''review_of_systems'', ''J''), (''vital_signs'', ''K''),
      (''assessment'', ''L'')]"

definition has_nested_structure :: "questions_doc \<Rightarrow> bool" where
  "has_nested_structure d =
     (case doc_categories d of
        None \<Rightarrow> False
      | Some categories \<Rightarrow>
          categories \<noteq> [] \<and> list_ex (\<lambda>(cat_label, cat_data). subcategories cat_data \<noteq> None) categories)"

text \<open>The new structure: categories, their subcategories, their questions.\<close>

definition flatten_subcategory ::
  "string \<Rightarrow> string \<times> subcategory_data \<Rightarrow> (string \<times> question_data) list \<Rightarrow>
   (string \<times> question_data) list"
where
  "flatten_subcategory cat_label sub questions_map =
     fold (\<lambda>(question_label, question_text).
             AList.update question_label
               \<lparr>question = question_text, category = cat_label, subcategory = fst sub,
                label = question_label, old_id = None\<rparr>)
          (subcat_questions (snd sub)) questions_map"

definition flatten_category ::
  "string \<times> category_data \<Rightarrow> (string \<times> question_data) list \<Rightarrow> (string \<times> question_data) list"
where
  "flatten_category cat questions_map =
     fold (flatten_subcategory (fst cat))
          (case subcategories (snd cat) of None \<Rightarrow> [] | Some subs \<Rightarrow> subs) questions_map"

text \<open>
  The old structure: one pass over the questions array, counting per category. The
  subcategory label always has two characters.
\<close>

definition next_subcat :: "string \<Rightarrow> string" where
  "next_subcat subcat_label =
     (case subcat_label of
        a # b # _ \<Rightarrow>
          (let subcat_letter = (of_char b :: nat) + 1;
               subcat_letter = (if subcat_letter > 90 then 65 else subcat_letter)
           in [a, char_of subcat_letter])
      | _ \<Rightarrow> subcat_label)"

definition flatten_old_step ::
  "old_question \<Rightarrow> (string \<times> nat \<times> string) list \<times> (string \<times> question_data) list \<Rightarrow>
   (string \<times> nat \<times> string) list \<times> (string \<times> question_data) list"
where
  "flatten_old_step q st =
     (let category_counts = fst st; questions_map = snd st;
          category = oq_category q;
          cat_label = (case map_of category_to_label category of Some l \<Rightarrow> l | None \<Rightarrow> ''Z'');
          (count0, subcat_label) =
            (case map_of category_counts category of None \<Rightarrow> (0, ''AA'') | Some c \<Rightarrow> c);
          q_num = count0 + 1;
          question_label = subcat_label @ ''_'' @ str_nat q_num;
          subcat' = (if q_num mod 5 = 0 then next_subcat subcat_label else subcat_label)
      in (AList.update category (q_num, subcat') category_counts,
          AList.update question_label
            \<lparr>question = oq_question q, category = cat_label, subcategory = subcat_label,
             label = question_label, old_id = Some (oq_id q)\<rparr> questions_map))"

text \<open>\<^verbatim>\<open>_flatten_questions\<close>; an empty result is reported on the console and returned.\<close>

definition flatten_questions :: "questions_doc \<Rightarrow> (string \<times> question_data) list" where
  "flatten_questions d =
     (if has_nested_structure d then
        fold flatten_category (case doc_categories d of None \<Rightarrow> [] | Some cs \<Rightarrow> cs) []
      else if doc_questions d \<noteq> [] then
        snd (fold flatten_old_step (doc_questions d) ([], []))
      else [])"

text \<open>The first label whose entry carries the given old identifier.\<close>

definition label_of_old_id :: "(string \<times> question_data) list \<Rightarrow> string \<Rightarrow> string option" where
  "label_of_old_id questions_map oid =
     map_option fst (find (\<lambda>(label, q_data). old_id q_data = Some oid) questions_map)"

definition old_dependencies_step ::
  "(string \<times> question_data) list \<Rightarrow> old_question \<Rightarrow>
   (string \<times> string list) list \<times> (string \<times> int) list \<Rightarrow>
   (string \<times> string list) list \<times> (string \<times> int) list"
where
  "old_dependencies_step questions_map q st =
     (case label_of_old_id questions_map (oq_id q) of
        None \<Rightarrow> st
      | Some new_label \<Rightarrow>
          if new_label = [] then st
          else
            (let new_deps = List.map_filter (label_of_old_id questions_map) (oq_dependencies q)
             in (AList.update new_label new_deps (fst st),
                 AList.update new_label (case oq_priority q of Some p \<Rightarrow> p | None \<Rightarrow> 1) (snd st))))"

text \<open>
  The part of \<^verbatim>\<open>QuestionFlowEngine.__init__\<close> that builds the catalog. Nothing in it
  inspects the dependency relation.
\<close>

definition engine_of_doc :: "questions_doc \<Rightarrow> engine" where
  "engine_of_doc d =
     (let questions_map = flatten_questions d
      in if doc_question_dependencies d \<noteq> [] then
           \<lparr>questions = questions_map,
            dependencies = doc_question_dependencies d,
            priorities = doc_question_priorities d,
            flow_order = doc_flow_order d\<rparr>
         else
           (let dp = fold (old_dependencies_step questions_map) (doc_questions d) ([], [])
            in \<lparr>questions = questions_map,
                dependencies = fst dp,
                priorities = snd dp,
                flow_order = List.map_filter (map_of category_to_label) (doc_flow_order d)\<rparr>))"

definition init_engine :: "questions_file \<Rightarrow> load_error + engine" where
  "init_engine f = (case load_questions f of Inl err \<Rightarrow> Inl err | Inr d \<Rightarrow> Inr (engine_of_doc d))"

section \<open>Saving the answers\<close>










section \<open>Example catalogs and inputs\<close>

text \<open>
  Three questions in two categories; the second question of the first category
  depends on the first one.
\<close>

definition scenario_engine :: engine where
  "scenario_engine =
     \<lparr>questions =
        [(''A_1'', \<lparr>question = ''What is your full name?'', category = ''A'', subcategory = ''AA'',
                   label = ''A_1'', old_id = None\<rparr>),
         (''A_2'', \<lparr>question = ''What is your date of birth?'', category = ''A'', subcategory = ''AA'',
                   label = ''A_2'', old_id = None\<rparr>),
         (''B_1'', \<lparr>question = ''What brings you in today?'', category = ''B'', subcategory = ''BA'',
                   label = ''B_1'', old_id = None\<rparr>)],
      dependencies = [(''A_2'', [''A_1''])],
      priorities = [(''A_1'', 1), (''A_2'', 1), (''B_1'', 2)],
      flow_order = [''A'', ''B'']\<rparr>"

definition q_A_2 :: q_dict where
  "q_A_2 = \<lparr>q_id = ''A_2'', q_question = ''What is your date of birth?'', q_category = ''A'',
            q_subcategory = ''AA'', q_label = ''A_2''\<rparr>"

definition q_B_1 :: q_dict where
  "q_B_1 = \<lparr>q_id = ''B_1'', q_question = ''What brings you in today?'', q_category = ''B'',
            q_subcategory = ''BA'', q_label = ''B_1''\<rparr>"




text \<open>A judge that always proposes \<open>A_1\<close>, whatever the candidates are.\<close>

definition stubborn_judge ::
  "q_dict list \<Rightarrow> (string \<times> string) list \<Rightarrow> (string \<times> string) list \<Rightarrow> string option"
where
  "stubborn_judge available_questions conversation_history current_answers = Some ''A_1''"

text \<open>Two workflow states with the same answered labels and different histories.\<close>

definition state_one_answer :: QuestionFlowState where
  "state_one_answer =
     \<lparr>messages = [AIMessage ''What is your full name?'', HumanMessage ''Ann Lee''],
      answered_questions = {''A_1''}, asked_questions = {''A_1''},
      answers = [(''A_1'', ''Ann Lee'')], current_question_id = Some ''A_1'',
      flow_complete = False\<rparr>"

definition state_one_answer_other_history :: QuestionFlowState where
  "state_one_answer_other_history =
     \<lparr>messages = [HumanMessage ''hello'', HumanMessage ''Zed''],
      answered_questions = {}, asked_questions = {},
      answers = [(''A_1'', ''Zed'')], current_question_id = None,
      flow_complete = True\<rparr>"

text \<open>A stored state that knows \<open>A_1\<close>, and a state in progress that has recorded \<open>A_2\<close>.\<close>

definition stored_state :: QuestionFlowState where
  "stored_state =
     \<lparr>messages = [AIMessage ''What is your full name?''],
      answered_questions = {''A_1''}, asked_questions = {''A_1''},
      answers = [(''A_1'', ''Ann'')], current_question_id = Some ''A_1'',
      flow_complete = False\<rparr>"


text \<open>A session with two answers recorded and the third question pending.\<close>

definition session_two_answers :: session_state where
  "session_two_answers =
     \<lparr>messages = [], answered_questions = {''A_1'', ''A_2''},
      asked_questions = {''A_1'', ''A_2''},
      answers = [(''A_1'', ''Ann Lee''), (''A_2'', ''1 May 1980'')],
      current_question_id = None\<rparr>"

text \<open>Two questions that depend on each other.\<close>

definition cycle_doc :: questions_doc where
  "cycle_doc =
     \<lparr>doc_categories =
        Some [(''A'', \<lparr>cat_title = ''Introduction'',
                       subcategories =
                         Some [(''AA'', \<lparr>subcat_title = ''Basics'',
                                          subcat_questions =
                                            [(''X_1'', ''What is your full name?''),
                                             (''Y_1'', ''What is your date of birth?'')]\<rparr>)]\<rparr>)],
      doc_questions = [],
      doc_question_dependencies = [(''X_1'', [''Y_1'']), (''Y_1'', [''X_1''])],
      doc_question_priorities = [(''X_1'', 1), (''Y_1'', 1)],
      doc_flow_order = [''A'']\<rparr>"

definition cycle_engine :: engine where
  "cycle_engine =
     \<lparr>questions =
        [(''X_1'', \<lparr>question = ''What is your full name?'', category = ''A'', subcategory = ''AA'',
                   label = ''X_1'', old_id = None\<rparr>),
         (''Y_1'', \<lparr>question = ''What is your date of birth?'', category = ''A'',
                   subcategory = ''AA'', label = ''Y_1'', old_id = None\<rparr>)],
      dependencies = [(''X_1'', [''Y_1'']), (''Y_1'', [''X_1''])],
      priorities = [(''X_1'', 1), (''Y_1'', 1)],
      flow_order = [''A'']\<rparr>"





section \<open>The dependency resolver\<close>

text \<open>
  The loop returns what it has collected, followed by the eligible questions of the
  rest of the catalog, cut where the list reaches the cap.
\<close>

lemma available_loop_take:
  "length acc < MAX_QUESTIONS \<Longrightarrow>
   available_loop e A qs acc =
     acc @ take (MAX_QUESTIONS - length acc)
             (map (\<lambda>(l, qd). mk_q_dict l qd)
                  (filter (\<lambda>p. fst p \<notin> A \<and> deps_satisfied e A (fst p)) qs))"
proof (induction qs arbitrary: acc)
  case Nil
  then show ?case by simp
next
  case (Cons p qs)
  obtain l qd where p: "p = (l, qd)" by (cases p)
  show ?case
  proof (cases "l \<notin> A \<and> deps_satisfied e A l")
    case False
    then show ?thesis using Cons p by auto
  next
    case elig: True
    show ?thesis
    proof (cases "Suc (length acc) < MAX_QUESTIONS")
      case True
      then have "available_loop e A qs (acc @ [mk_q_dict l qd]) =
          (acc @ [mk_q_dict l qd]) @ take (MAX_QUESTIONS - length (acc @ [mk_q_dict l qd]))
             (map (\<lambda>(l, qd). mk_q_dict l qd)
                  (filter (\<lambda>p. fst p \<notin> A \<and> deps_satisfied e A (fst p)) qs))"
        using Cons.IH [of "acc @ [mk_q_dict l qd]"] by simp
      then show ?thesis using elig True p Cons.prems
        by (simp add: Let_def take_Cons')
    next
      case False
      then have "MAX_QUESTIONS - length acc = 1" using Cons.prems by simp
      then show ?thesis using elig False p by (simp add: Let_def)
    qed
  qed
qed

lemma get_available_questions_eq:
  "get_available_questions e A =
     (if MAX_QUESTIONS \<le> card A then []
      else take MAX_QUESTIONS
             (map (\<lambda>(l, qd). mk_q_dict l qd)
                  (filter (\<lambda>p. fst p \<notin> A \<and> deps_satisfied e A (fst p)) (questions e))))"
  by (simp add: get_available_questions_def available_loop_take MAX_QUESTIONS_def)

lemma q_id_mk_q_dict: "q_id (case p of (l, qd) \<Rightarrow> mk_q_dict l qd) = fst p"
  by (cases p) (simp add: mk_q_dict_def)

lemma available_ids:
  "map q_id (get_available_questions e A) =
     (if MAX_QUESTIONS \<le> card A then []
      else take MAX_QUESTIONS
             (filter (\<lambda>l. l \<notin> A \<and> deps_satisfied e A l) (map fst (questions e))))"
  by (simp add: get_available_questions_eq take_map filter_map comp_def q_id_mk_q_dict)

lemma available_member:
  assumes "q \<in> set (get_available_questions e A)"
  shows "q_id q \<notin> A \<and> deps_satisfied e A (q_id q) \<and> q_id q \<in> fst ` set (questions e)"
proof -
  have "q_id q \<in> set (map q_id (get_available_questions e A))" using assms by simp
  then have "q_id q \<in> set (take MAX_QUESTIONS
       (filter (\<lambda>l. l \<notin> A \<and> deps_satisfied e A l) (map fst (questions e))))"
    by (simp only: available_ids split: if_splits) simp
  then have "q_id q \<in> set (filter (\<lambda>l. l \<notin> A \<and> deps_satisfied e A l) (map fst (questions e)))"
    by (rule in_set_takeD)
  then show ?thesis by auto
qed

lemma available_nil_card: "MAX_QUESTIONS \<le> card A \<Longrightarrow> get_available_questions e A = []"
  by (simp add: get_available_questions_def)

lemma available_length: "length (get_available_questions e A) \<le> MAX_QUESTIONS"
  by (simp add: get_available_questions_eq)

text \<open>
  Claim C1, as stated: a label is in the result of \<^verbatim>\<open>_get_available_questions\<close> if and
  only if it is not answered and all its dependencies are answered. It fails on the
  example catalog once \<open>A_1\<close> and \<open>A_2\<close> are answered: \<open>B_1\<close> is unanswered and has no
  open dependency, and the result does not hold it, because two answers are recorded.
\<close>

theorem available_not_complete_counterexample:
  "''B_1'' \<notin> {''A_1'', ''A_2''} \<and>
   deps_satisfied scenario_engine {''A_1'', ''A_2''} ''B_1'' \<and>
   ''B_1'' \<in> fst ` set (questions scenario_engine) \<and>
   ''B_1'' \<notin> q_id ` set (get_available_questions scenario_engine {''A_1'', ''A_2''})"
  by (simp add: scenario_engine_def deps_satisfied_def deps_of_def
        get_available_questions_def MAX_QUESTIONS_def)

text \<open>
  Claim C1, amended: every label in the result is a catalog label that is not answered
  and has all its dependencies answered; the result is empty once two labels are
  answered, and otherwise it is the first two such labels in catalog order.
\<close>

theorem available_questions_sound_and_capped:
  "(\<forall>q \<in> set (get_available_questions e answered).
      q_id q \<notin> answered \<and> deps_satisfied e answered (q_id q) \<and>
      q_id q \<in> fst ` set (questions e)) \<and>
   map q_id (get_available_questions e answered) =
     (if MAX_QUESTIONS \<le> card answered then []
      else take MAX_QUESTIONS
             (filter (\<lambda>l. l \<notin> answered \<and> deps_satisfied e answered l)
                     (map fst (questions e))))"
  using available_member available_ids by blast

theorem available_questions_sound_and_capped_witness:
  "map q_id (get_available_questions scenario_engine {''A_1''}) = [''A_2'', ''B_1''] \<and>
   ''A_2'' \<notin> {''A_1''} \<and> deps_satisfied scenario_engine {''A_1''} ''A_2'' \<and>
   ''B_1'' \<notin> {''A_1''} \<and> deps_satisfied scenario_engine {''A_1''} ''B_1''"
  using available_questions_sound_and_capped [of scenario_engine "{''A_1''}"]
  by (simp add: scenario_engine_def deps_satisfied_def deps_of_def MAX_QUESTIONS_def)

section \<open>The ordering policy\<close>












lemma sort_key_q_A_2: "sort_key_q scenario_engine q_A_2 = (0, 1, 2)"
  by (simp add: sort_key_q_def scenario_engine_def q_A_2_def q_num_of_def
      category_order_map_def py_int_def split_second_def strip_def is_space_def
      all_digits_def is_digit_def digits_val_def)

lemma sort_key_q_B_1: "sort_key_q scenario_engine q_B_1 = (1, 2, 1)"
  by (simp add: sort_key_q_def scenario_engine_def q_B_1_def q_num_of_def
      category_order_map_def py_int_def split_second_def strip_def is_space_def
      all_digits_def is_digit_def digits_val_def)




section \<open>The selection node\<close>

lemma sort_questions_nonempty:
  "xs \<noteq> [] \<Longrightarrow> \<exists>q rest. sort_questions_by_order e xs = q # rest \<and> q \<in> set xs"
proof -
  assume "xs \<noteq> []"
  then have "length (sort_questions_by_order e xs) \<noteq> 0"
    by (simp add: sort_questions_by_order_def)
  then obtain q rest where qr: "sort_questions_by_order e xs = q # rest"
    by (cases "sort_questions_by_order e xs") auto
  then have "q \<in> set (sort_questions_by_order e xs)" by simp
  then have "q \<in> set xs" by (simp add: sort_questions_by_order_def)
  with qr show ?thesis by blast
qed

lemma filter_answered_id:
  assumes "sid \<in> A"
  shows "filter (\<lambda>q. q_id q \<noteq> sid) (get_available_questions e A) = get_available_questions e A"
proof -
  have "\<forall>q \<in> set (get_available_questions e A). q_id q \<noteq> sid"
    using available_member [of _ e A] assms by auto
  then show ?thesis by (simp add: filter_id_conv)
qed

lemma select_with_complete:
  assumes "get_available_questions e (answered_questions st \<union> fst ` set (answers st)) = []"
  shows "select_question_node_with J e st =
           st\<lparr>answered_questions := answered_questions st \<union> fst ` set (answers st),
              current_question_id := None, flow_complete := True\<rparr>"
  using assms by (simp add: select_question_node_with_def)

lemma select_with_some:
  assumes av: "get_available_questions e (answered_questions st \<union> fst ` set (answers st)) \<noteq> []"
  shows "\<exists>q \<in> set (get_available_questions e (answered_questions st \<union> fst ` set (answers st))).
           select_question_node_with J e st =
             st\<lparr>answered_questions := answered_questions st \<union> fst ` set (answers st),
                current_question_id := Some (q_id q)\<rparr>"
proof -
  define A where "A = answered_questions st \<union> fst ` set (answers st)"
  define avl where "avl = get_available_questions e A"
  have ne: "avl \<noteq> []" using av by (simp add: avl_def A_def)
  obtain q0 rest where s0: "sort_questions_by_order e avl = q0 # rest" and q0: "q0 \<in> set avl"
    using sort_questions_nonempty [OF ne] by blast
  have flt: "\<And>sid. sid \<in> A \<Longrightarrow> filter (\<lambda>q. q_id q \<noteq> sid) avl = avl"
    unfolding avl_def by (rule filter_answered_id)
  show ?thesis
  proof (cases "J avl (answers st) (answers st)")
    case None
    then have "select_question_node_with J e st =
        st\<lparr>answered_questions := A, current_question_id := Some (q_id q0)\<rparr>"
      using ne s0 by (simp add: select_question_node_with_def A_def [symmetric] avl_def [symmetric] Let_def)
    then show ?thesis using q0 unfolding avl_def A_def by blast
  next
    case (Some sid)
    show ?thesis
    proof (cases "sid \<noteq> [] \<and> sid \<in> A")
      case True
      then have "select_question_node_with J e st =
        st\<lparr>answered_questions := A, current_question_id := Some (q_id q0)\<rparr>"
        using ne s0 Some flt [of sid]
        by (simp add: select_question_node_with_def A_def [symmetric] avl_def [symmetric] Let_def)
      then show ?thesis using q0 unfolding avl_def A_def by blast
    next
      case False
      show ?thesis
      proof (cases "sid \<noteq> [] \<and> Some sid \<in> Some ` set (map q_id avl)")
        case True
        then obtain q where q: "q \<in> set avl" "sid = q_id q" by auto
        have "select_question_node_with J e st =
          st\<lparr>answered_questions := A, current_question_id := Some sid\<rparr>"
          using ne Some False True
          by (simp add: select_question_node_with_def A_def [symmetric] avl_def [symmetric] Let_def)
        then show ?thesis using q unfolding avl_def A_def by blast
      next
        case F2: False
        have "select_question_node_with J e st =
          st\<lparr>answered_questions := A, current_question_id := Some (q_id q0)\<rparr>"
          using ne Some False F2 s0
          by (auto simp: select_question_node_with_def A_def [symmetric] avl_def [symmetric] Let_def)
        then show ?thesis using q0 unfolding avl_def A_def by blast
      qed
    qed
  qed
qed

lemma judge_sorted_head:
  "judge_next_question e av h a =
     (case sort_questions_by_order e av of [] \<Rightarrow> None | q # _ \<Rightarrow> Some (q_id q))"
  by (cases av) (simp_all add: judge_next_question_def sort_questions_by_order_def)

lemma select_node_eq:
  "select_question_node e st =
     (case sort_questions_by_order e
             (get_available_questions e (answered_questions st \<union> fst ` set (answers st))) of
        [] \<Rightarrow> st\<lparr>answered_questions := answered_questions st \<union> fst ` set (answers st),
                 current_question_id := None, flow_complete := True\<rparr>
      | q # _ \<Rightarrow> st\<lparr>answered_questions := answered_questions st \<union> fst ` set (answers st),
                     current_question_id := Some (q_id q)\<rparr>)"
proof -
  define A where "A = answered_questions st \<union> fst ` set (answers st)"
  define avl where "avl = get_available_questions e A"
  show ?thesis
  proof (cases "avl = []")
    case True
    then have "sort_questions_by_order e avl = []" by (simp add: sort_questions_by_order_def)
    then show ?thesis using True
      by (simp add: select_question_node_def select_question_node_with_def
          A_def [symmetric] avl_def [symmetric])
  next
    case False
    obtain q0 rest where s0: "sort_questions_by_order e avl = q0 # rest" and q0: "q0 \<in> set avl"
      using sort_questions_nonempty [OF False] by blast
    have nA: "q_id q0 \<notin> A" using available_member [of q0 e A] q0 by (simp add: avl_def)
    have j: "judge_next_question e avl (answers st) (answers st) = Some (q_id q0)"
      by (simp add: judge_sorted_head s0)
    have "select_question_node e st = st\<lparr>answered_questions := A, current_question_id := Some (q_id q0)\<rparr>"
      using False s0 nA j q0
      by (auto simp: select_question_node_def select_question_node_with_def
          A_def [symmetric] avl_def [symmetric] Let_def)
    then show ?thesis using s0 by (simp add: A_def [symmetric] avl_def [symmetric])
  qed
qed

lemma process_answer_messages: "messages (process_answer_node e st) = messages st"
  by (simp add: process_answer_node_def Let_def split: option.splits)

lemma process_answer_flow: "flow_complete (process_answer_node e st) = flow_complete st"
  by (simp add: process_answer_node_def Let_def split: option.splits)

lemma process_answer_answered_mono:
  "answered_questions st \<subseteq> answered_questions (process_answer_node e st)"
  by (auto simp: process_answer_node_def Let_def split: option.splits)

lemma process_answer_finite:
  "finite (answered_questions st) \<Longrightarrow> finite (answered_questions (process_answer_node e st))"
  by (auto simp: process_answer_node_def Let_def split: option.splits)

lemma ask_fields:
  "answered_questions (ask_question_node e st) = answered_questions st"
  "answers (ask_question_node e st) = answers st"
  "current_question_id (ask_question_node e st) = current_question_id st"
  "flow_complete (ask_question_node e st) = flow_complete st"
  by (simp_all add: ask_question_node_def split: option.splits)

lemma ask_messages_None:
  "current_question_id st = None \<Longrightarrow> messages (ask_question_node e st) = messages st"
  by (simp add: ask_question_node_def)

lemma check_fields:
  "answered_questions (check_completion_node e st) = answered_questions st"
  "answers (check_completion_node e st) = answers st"
  "current_question_id (check_completion_node e st) = current_question_id st"
  "messages (check_completion_node e st) = messages st"
  "flow_complete (check_completion_node e st) = (get_available_questions e (answered_questions st) = [])"
  by (simp_all add: check_completion_node_def Let_def)

lemma select_with_fields:
  "answered_questions (select_question_node_with J e st) = answered_questions st \<union> fst ` set (answers st)"
  "answers (select_question_node_with J e st) = answers st"
  "messages (select_question_node_with J e st) = messages st"
proof -
  let ?A = "answered_questions st \<union> fst ` set (answers st)"
  consider "get_available_questions e ?A = []" | "get_available_questions e ?A \<noteq> []" by blast
  then have "answered_questions (select_question_node_with J e st) = ?A \<and>
    answers (select_question_node_with J e st) = answers st \<and>
    messages (select_question_node_with J e st) = messages st"
  proof cases
    case 1
    then show ?thesis by (simp add: select_with_complete)
  next
    case 2
    from select_with_some [OF 2, of J] obtain q where
      "q \<in> set (get_available_questions e ?A)"
      "select_question_node_with J e st = st\<lparr>answered_questions := ?A, current_question_id := Some (q_id q)\<rparr>"
      by blast
    then show ?thesis by simp
  qed
  then show "answered_questions (select_question_node_with J e st) = answered_questions st \<union> fst ` set (answers st)"
    "answers (select_question_node_with J e st) = answers st"
    "messages (select_question_node_with J e st) = messages st" by simp_all
qed

lemma select_with_current:
  "current_question_id (select_question_node_with J e st) = Some l \<Longrightarrow>
   \<exists>q \<in> set (get_available_questions e (answered_questions st \<union> fst ` set (answers st))). l = q_id q"
proof -
  assume c: "current_question_id (select_question_node_with J e st) = Some l"
  let ?A = "answered_questions st \<union> fst ` set (answers st)"
  have ne: "get_available_questions e ?A \<noteq> []"
  proof
    assume "get_available_questions e ?A = []"
    then have "current_question_id (select_question_node_with J e st) = None"
      by (simp add: select_with_complete)
    with c show False by simp
  qed
  from select_with_some [OF ne, of J] obtain q where
    q: "q \<in> set (get_available_questions e ?A)"
    "select_question_node_with J e st = st\<lparr>answered_questions := ?A, current_question_id := Some (q_id q)\<rparr>"
    by blast
  with c have "l = q_id q" by simp
  with q show ?thesis by blast
qed

lemma select_with_flow:
  "flow_complete (select_question_node_with J e st) =
     (if get_available_questions e (answered_questions st \<union> fst ` set (answers st)) = [] then True
      else flow_complete st)"
proof (cases "get_available_questions e (answered_questions st \<union> fst ` set (answers st)) = []")
  case True
  then show ?thesis by (simp add: select_with_complete)
next
  case False
  from select_with_some [OF False, of J] show ?thesis using False by auto
qed

lemma select_with_current_None:
  "get_available_questions e (answered_questions st \<union> fst ` set (answers st)) = [] \<longleftrightarrow>
   current_question_id (select_question_node_with J e st) = None"
proof (cases "get_available_questions e (answered_questions st \<union> fst ` set (answers st)) = []")
  case True
  then show ?thesis by (simp add: select_with_complete)
next
  case False
  from select_with_some [OF False, of J] show ?thesis using False by auto
qed

section \<open>Merging with the stored state\<close>


lemma dict_merge_keys: "fst ` set (dict_merge a b) = fst ` set a \<union> fst ` set b"
proof (induction b arbitrary: a)
  case Nil
  then show ?case by (simp add: dict_merge_def)
next
  case (Cons p b)
  obtain k v where p: "p = (k, v)" by (cases p)
  have "dict_merge a (p # b) = dict_merge (AList.update k v a) b"
    by (simp add: dict_merge_def p)
  then show ?case using Cons.IH [of "AList.update k v a"] by (auto simp: p dom_update)
qed

lemma dict_merge_distinct:
  "distinct (map fst a) \<Longrightarrow> distinct (map fst (dict_merge a b))"
proof (induction b arbitrary: a)
  case Nil
  then show ?case by (simp add: dict_merge_def)
next
  case (Cons p b)
  obtain k v where p: "p = (k, v)" by (cases p)
  have "dict_merge a (p # b) = dict_merge (AList.update k v a) b"
    by (simp add: dict_merge_def p)
  then show ?case using Cons.IH [of "AList.update k v a"] Cons.prems by (simp add: distinct_update)
qed

lemma merge_memory_fields:
  "answered_questions (merge_memory i ex m) =
     answered_questions i \<union> answered_questions ex \<union>
     (if answers ex \<noteq> [] then fst ` set (answers ex) \<union> fst ` set (answers i) else {})"
  "answers (merge_memory i ex m) = (if answers ex \<noteq> [] then dict_merge (answers ex) (answers i) else answers i)"
  "current_question_id (merge_memory i ex m) =
     (if \<not> truthy (current_question_id i) \<and> truthy (current_question_id ex)
      then current_question_id ex else current_question_id i)"
  "flow_complete (merge_memory i ex m) = flow_complete i"
  "\<exists>ms. messages (merge_memory i ex m) = ms @ [HumanMessage m]"
  by (auto simp: merge_memory_def Let_def dict_merge_keys split: if_splits)

section \<open>The workflow and the controller\<close>

lemma select_fields:
  "answered_questions (select_question_node e st) = answered_questions st \<union> fst ` set (answers st)"
  "answers (select_question_node e st) = answers st"
  "messages (select_question_node e st) = messages st"
  by (simp_all add: select_question_node_def select_with_fields)

lemma workflow_answered:
  "answered_questions (workflow e st) =
     answered_questions (process_answer_node e st) \<union> fst ` set (answers (process_answer_node e st))"
  by (simp add: workflow_def check_fields ask_fields select_fields)

lemma workflow_answers: "answers (workflow e st) = answers (process_answer_node e st)"
  by (simp add: workflow_def check_fields ask_fields select_fields)

lemma workflow_keys_answered: "fst ` set (answers (workflow e st)) \<subseteq> answered_questions (workflow e st)"
  by (simp add: workflow_answered workflow_answers)

lemma workflow_flow_complete:
  "flow_complete (workflow e st) = (get_available_questions e (answered_questions (workflow e st)) = [])"
  by (simp add: workflow_def check_fields ask_fields select_fields)

lemma workflow_current:
  "current_question_id (workflow e st) = current_question_id (select_question_node e (process_answer_node e st))"
  by (simp add: workflow_def check_fields ask_fields)

lemma workflow_current_None:
  "current_question_id (workflow e st) = None \<longleftrightarrow>
   get_available_questions e (answered_questions (workflow e st)) = []"
  using select_with_current_None [of e "process_answer_node e st" "judge_next_question e"]
  by (simp add: workflow_current workflow_answered select_question_node_def)

lemma workflow_current_not_answered:
  assumes "current_question_id (workflow e st) = Some l"
  shows "l \<notin> answered_questions (workflow e st)"
proof -
  from assms have "current_question_id (select_question_node_with (judge_next_question e) e (process_answer_node e st)) = Some l"
    by (simp add: workflow_current select_question_node_def)
  from select_with_current [OF this] obtain q where
    "q \<in> set (get_available_questions e (answered_questions (workflow e st)))" "l = q_id q"
    by (auto simp: workflow_answered)
  then show ?thesis using available_member by blast
qed

lemma workflow_messages_None:
  assumes "current_question_id (workflow e st) = None"
  shows "messages (workflow e st) = messages st"
proof -
  have "current_question_id (select_question_node e (process_answer_node e st)) = None"
    using assms by (simp add: workflow_current)
  then show ?thesis
    by (simp add: workflow_def check_fields ask_messages_None select_fields process_answer_messages)
qed

lemma workflow_answered_mono: "answered_questions st \<subseteq> answered_questions (workflow e st)"
  using process_answer_answered_mono [of st e] by (auto simp: workflow_answered)

lemma workflow_finite:
  "finite (answered_questions st) \<Longrightarrow> finite (answered_questions (workflow e st))"
  by (simp add: workflow_answered process_answer_finite)

lemma record_pending_answered:
  "answered_questions s \<subseteq> answered_questions (record_pending m s)"
  "finite (answered_questions s) \<Longrightarrow> finite (answered_questions (record_pending m s))"
  by (auto simp: record_pending_def split: option.splits)

lemma initial_state_messages: "\<exists>ms. messages (initial_state_of mem m s) = ms @ [HumanMessage m]"
proof (cases mem)
  case (Stored ex)
  then show ?thesis using merge_memory_fields(5) by (simp add: initial_state_of_def Let_def)
qed (simp_all add: initial_state_of_def)

lemma initial_state_answered:
  "answered_questions s \<subseteq> answered_questions (initial_state_of mem m s)"
  by (cases mem) (auto simp: initial_state_of_def Let_def merge_memory_fields)

lemma initial_state_finite:
  assumes "finite (answered_questions s)" "\<forall>ex. mem = Stored ex \<longrightarrow> finite (answered_questions ex)"
  shows "finite (answered_questions (initial_state_of mem m s))"
  using assms by (cases mem) (auto simp: initial_state_of_def Let_def merge_memory_fields)

lemma later_fields:
  "r_flow_complete (later_interaction e mem m s) =
     flow_complete (workflow e (initial_state_of mem m (record_pending m s)))"
  "answered_questions (r_session_state (later_interaction e mem m s)) =
     answered_questions (workflow e (initial_state_of mem m (record_pending m s)))"
  "answers (r_session_state (later_interaction e mem m s)) =
     answers (workflow e (initial_state_of mem m (record_pending m s)))"
  using workflow_keys_answered [of e "initial_state_of mem m (record_pending m s)"]
  by (auto simp: later_interaction_def Let_def)

lemma later_current:
  "r_current_question_id (later_interaction e mem m s) =
     current_question_id (workflow e (initial_state_of mem m (record_pending m s)))"
  "current_question_id (r_session_state (later_interaction e mem m s)) =
     current_question_id (workflow e (initial_state_of mem m (record_pending m s)))"
proof -
  let ?st = "initial_state_of mem m (record_pending m s)"
  obtain ms where ms: "messages ?st = ms @ [HumanMessage m]"
    using initial_state_messages by blast
  have "current_question_id (workflow e ?st) = None \<Longrightarrow>
        (case rev (messages (workflow e ?st)) of AIMessage t # _ \<Rightarrow> t | _ \<Rightarrow> []) = []"
    by (simp add: workflow_messages_None ms)
  then show "r_current_question_id (later_interaction e mem m s) = current_question_id (workflow e ?st)"
    "current_question_id (r_session_state (later_interaction e mem m s)) = current_question_id (workflow e ?st)"
    by (auto simp: later_interaction_def Let_def)
qed

section \<open>Facts about the example inputs and the controller\<close>

lemma avail_A1: "get_available_questions scenario_engine {''A_1''} = [q_A_2, q_B_1]"
  by (simp add: get_available_questions_def scenario_engine_def MAX_QUESTIONS_def
      deps_satisfied_def deps_of_def mk_q_dict_def q_A_2_def q_B_1_def)

lemma sort_A1: "sort_questions_by_order scenario_engine [q_A_2, q_B_1] = [q_A_2, q_B_1]"
  by (simp add: sort_questions_by_order_def sort_key_q_A_2 sort_key_q_B_1 less_eq_prod_def)

lemma q_ids: "q_id q_A_2 = ''A_2''" "q_id q_B_1 = ''B_1''"
  by (simp_all add: q_A_2_def q_B_1_def)


lemma exhausted_superset:
  assumes "get_available_questions e A = []" "A \<noteq> {}" "A \<subseteq> B" "finite B"
  shows "get_available_questions e B = []"
proof (cases "A = B")
  case True
  then show ?thesis using assms(1) by simp
next
  case False
  then have "A \<subset> B" using assms(3) by blast
  then have "card A < card B" using assms(4) by (simp add: psubset_card_mono)
  moreover have "0 < card A" using assms(2,3,4) by (simp add: card_gt_0_iff finite_subset)
  ultimately have "MAX_QUESTIONS \<le> card B" by (simp add: MAX_QUESTIONS_def)
  then show ?thesis by (rule available_nil_card)
qed

lemma later_answered_mono:
  "answered_questions s \<subseteq> answered_questions (r_session_state (later_interaction e mem m s))"
  using record_pending_answered(1) [of s m]
    initial_state_answered [of "record_pending m s" mem m]
    workflow_answered_mono [of "initial_state_of mem m (record_pending m s)" e]
  by (auto simp: later_fields)

lemma later_finite:
  assumes "finite (answered_questions s)" "\<forall>ex. mem = Stored ex \<longrightarrow> finite (answered_questions ex)"
  shows "finite (answered_questions (r_session_state (later_interaction e mem m s)))"
  using assms by (simp add: later_fields workflow_finite initial_state_finite record_pending_answered)

lemma later_flow_complete:
  "r_flow_complete (later_interaction e mem m s) =
     (get_available_questions e (answered_questions (r_session_state (later_interaction e mem m s))) = [])"
  by (simp add: later_fields workflow_flow_complete)

lemma later_current_not_answered:
  assumes "r_current_question_id (later_interaction e mem m s) = Some l"
  shows "l \<notin> answered_questions (r_session_state (later_interaction e mem m s))"
  using assms workflow_current_not_answered by (simp add: later_current later_fields)

lemma later_current_None:
  "r_current_question_id (later_interaction e mem m s) = None \<longleftrightarrow>
   r_flow_complete (later_interaction e mem m s)"
  by (simp add: later_current later_fields workflow_current_None workflow_flow_complete)

lemma first_current_not_answered:
  assumes "r_current_question_id (first_interaction e m s) = Some l"
  shows "l \<notin> answered_questions (r_session_state (first_interaction e m s)) \<or> answered_questions s \<noteq> {}"
proof (cases "sort_questions_by_order e (get_available_questions e {})")
  case Nil
  then show ?thesis using assms by (simp add: first_interaction_def)
next
  case (Cons q rest)
  then show ?thesis by (auto simp: first_interaction_def Let_def)
qed

lemma avail_cycle: "get_available_questions cycle_engine {} = []"
  by (simp add: get_available_questions_def cycle_engine_def MAX_QUESTIONS_def
      deps_satisfied_def deps_of_def)

lemma process_message_later:
  "\<not> (card (answered_questions s) = 0 \<and> current_question_id s = None) \<Longrightarrow>
   process_message e mem m (Some s) = later_interaction e mem m s"
  by (auto simp: process_message_def)

lemma later_exhausted_invariant:
  assumes "finite (answered_questions s)" "answered_questions s \<noteq> {}"
      and "\<forall>ex. mem = Stored ex \<longrightarrow> finite (answered_questions ex)"
      and "get_available_questions e (answered_questions s) = []"
  shows "r_flow_complete (process_message e mem m (Some s))"
    "r_current_question_id (process_message e mem m (Some s)) = None"
    "finite (answered_questions (r_session_state (process_message e mem m (Some s))))"
    "answered_questions (r_session_state (process_message e mem m (Some s))) \<noteq> {}"
    "get_available_questions e
       (answered_questions (r_session_state (process_message e mem m (Some s)))) = []"
proof -
  let ?r = "later_interaction e mem m s"
  have "card (answered_questions s) \<noteq> 0" using assms(1,2) by simp
  then have pm: "process_message e mem m (Some s) = ?r"
    by (intro process_message_later) simp
  have b: "answered_questions s \<subseteq> answered_questions (r_session_state ?r)"
    by (rule later_answered_mono)
  have c: "finite (answered_questions (r_session_state ?r))"
    using assms(1,3) by (rule later_finite)
  have d: "get_available_questions e (answered_questions (r_session_state ?r)) = []"
    using assms(4,2) b c by (rule exhausted_superset)
  then have f: "r_flow_complete ?r" by (simp add: later_flow_complete)
  show "r_flow_complete (process_message e mem m (Some s))" using f pm by simp
  show "r_current_question_id (process_message e mem m (Some s)) = None"
    using f pm by (simp add: later_current_None)
  show "finite (answered_questions (r_session_state (process_message e mem m (Some s))))"
    using c pm by simp
  show "answered_questions (r_session_state (process_message e mem m (Some s))) \<noteq> {}"
    using b assms(2) pm by auto
  show "get_available_questions e
       (answered_questions (r_session_state (process_message e mem m (Some s)))) = []"
    using d pm by simp
qed

lemma run_session_all_complete:
  assumes "finite (answered_questions s)" "answered_questions s \<noteq> {}"
      and "get_available_questions e (answered_questions s) = []"
      and "\<forall>mem m ex. (mem, m) \<in> set calls \<and> mem = Stored ex \<longrightarrow> finite (answered_questions ex)"
  shows "\<forall>r \<in> set (run_session e s calls). r_flow_complete r \<and> r_current_question_id r = None"
  using assms
proof (induction calls arbitrary: s)
  case Nil
  then show ?case by simp
next
  case (Cons c calls)
  obtain mem m where c: "c = (mem, m)" by (cases c)
  have fm: "\<forall>ex. mem = Stored ex \<longrightarrow> finite (answered_questions ex)"
    using Cons.prems(4) c by auto
  note inv = later_exhausted_invariant [OF Cons.prems(1,2) fm Cons.prems(3), of m]
  have rest: "\<forall>r \<in> set (run_session e (r_session_state (process_message e mem m (Some s))) calls).
      r_flow_complete r \<and> r_current_question_id r = None"
    using Cons.prems(4) by (intro Cons.IH inv(3,4,5)) auto
  show ?case using inv(1,2) rest by (simp add: c Let_def)
qed

section \<open>Facts about loading the catalog and saving the answers\<close>

lemma engine_of_cycle_doc: "engine_of_doc cycle_doc = cycle_engine"
  by (simp add: engine_of_doc_def cycle_doc_def cycle_engine_def flatten_questions_def
      has_nested_structure_def flatten_category_def flatten_subcategory_def)




















lemma cycle_not_available:
  assumes "y \<in> set (deps_of e x)" "y \<notin> A"
  shows "x \<notin> q_id ` set (get_available_questions e A)"
proof
  assume "x \<in> q_id ` set (get_available_questions e A)"
  then obtain q where "q \<in> set (get_available_questions e A)" "x = q_id q" by auto
  then have "deps_satisfied e A x" using available_member [of q e A] by simp
  then show False using assms by (auto simp: deps_satisfied_def list_all_iff)
qed




section \<open>The claims about the flow\<close>

text \<open>
  Claim C2: the selector never emits a label that is already answered; if the selection
  proposes such a label, the controller drops it from the candidates and selects again
  before returning. Proved for \<^verbatim>\<open>_select_question_node\<close> with any judge in place of
  \<^verbatim>\<open>_judge_next_question\<close>: the label the node leaves in \<open>current_question_id\<close> is
  neither in the answered set nor a key of the answers; when the judge proposes an
  answered label, the node's choice is the judge of the code applied to the candidates
  without that label. The same holds for the label that \<^verbatim>\<open>process_message\<close> returns,
  against the answered set of the session it is given and of the session it returns.
\<close>

theorem selector_never_emits_answered:
  "(current_question_id (select_question_node_with J e st) = Some l \<longrightarrow>
      l \<notin> answered_questions st \<and> l \<notin> fst ` set (answers st) \<and>
      l \<notin> answered_questions (select_question_node_with J e st)) \<and>
   (J (get_available_questions e (answered_questions st \<union> fst ` set (answers st)))
      (answers st) (answers st) = Some sid \<and> sid \<noteq> [] \<and>
    sid \<in> answered_questions st \<union> fst ` set (answers st) \<longrightarrow>
      current_question_id (select_question_node_with J e st) =
        judge_next_question e
          (filter (\<lambda>q. q_id q \<noteq> sid)
             (get_available_questions e (answered_questions st \<union> fst ` set (answers st))))
          (answers st) (answers st)) \<and>
   (finite (answered_questions s) \<and>
    r_current_question_id (process_message e mem m (Some s)) = Some l \<longrightarrow>
      l \<notin> answered_questions (r_session_state (process_message e mem m (Some s))) \<and>
      l \<notin> answered_questions s)"
proof -
  let ?A = "answered_questions st \<union> fst ` set (answers st)"
  let ?av = "get_available_questions e ?A"
  have a: "current_question_id (select_question_node_with J e st) = Some l \<longrightarrow>
      l \<notin> answered_questions st \<and> l \<notin> fst ` set (answers st) \<and>
      l \<notin> answered_questions (select_question_node_with J e st)"
  proof
    assume "current_question_id (select_question_node_with J e st) = Some l"
    from select_with_current [OF this] obtain q where "q \<in> set ?av" "l = q_id q" by blast
    then have "l \<notin> ?A" using available_member [of q e ?A] by simp
    then show "l \<notin> answered_questions st \<and> l \<notin> fst ` set (answers st) \<and>
      l \<notin> answered_questions (select_question_node_with J e st)"
      by (simp add: select_with_fields)
  qed
  have b: "J ?av (answers st) (answers st) = Some sid \<and> sid \<noteq> [] \<and> sid \<in> ?A \<longrightarrow>
      current_question_id (select_question_node_with J e st) =
        judge_next_question e (filter (\<lambda>q. q_id q \<noteq> sid) ?av) (answers st) (answers st)"
  proof
    assume h: "J ?av (answers st) (answers st) = Some sid \<and> sid \<noteq> [] \<and> sid \<in> ?A"
    then have flt: "filter (\<lambda>q. q_id q \<noteq> sid) ?av = ?av" by (simp add: filter_answered_id)
    show "current_question_id (select_question_node_with J e st) =
        judge_next_question e (filter (\<lambda>q. q_id q \<noteq> sid) ?av) (answers st) (answers st)"
    proof (cases "?av = []")
      case True
      then show ?thesis by (simp add: select_with_complete judge_next_question_def)
    next
      case False
      obtain q0 rest where s0: "sort_questions_by_order e ?av = q0 # rest"
        using sort_questions_nonempty [OF False] by blast
      have "current_question_id (select_question_node_with J e st) = Some (q_id q0)"
        using h False s0 flt by (simp add: select_question_node_with_def Let_def)
      then show ?thesis by (simp add: flt judge_sorted_head s0)
    qed
  qed
  have c: "finite (answered_questions s) \<and>
    r_current_question_id (process_message e mem m (Some s)) = Some l \<longrightarrow>
      l \<notin> answered_questions (r_session_state (process_message e mem m (Some s))) \<and>
      l \<notin> answered_questions s"
  proof
    assume h: "finite (answered_questions s) \<and>
      r_current_question_id (process_message e mem m (Some s)) = Some l"
    show "l \<notin> answered_questions (r_session_state (process_message e mem m (Some s))) \<and>
      l \<notin> answered_questions s"
    proof (cases "card (answered_questions s) = 0 \<and> current_question_id s = None")
      case True
      then have e0: "answered_questions s = {}" using h by simp
      from True have pm: "process_message e mem m (Some s) = first_interaction e m s"
        by (simp add: process_message_def)
      then show ?thesis using first_current_not_answered [of e m s l] h e0 by simp
    next
      case False
      then have pm: "process_message e mem m (Some s) = later_interaction e mem m s"
        by (auto simp: process_message_def)
      have "l \<notin> answered_questions (r_session_state (later_interaction e mem m s))"
        using later_current_not_answered [of e mem m s l] h pm by simp
      then show ?thesis using later_answered_mono [of s e mem m] pm by auto
    qed
  qed
  from a b c show ?thesis by - (intro conjI; assumption)
qed

theorem selector_never_emits_answered_witness:
  "stubborn_judge (get_available_questions scenario_engine {''A_1''})
      [(''A_1'', ''Ann Lee'')] [(''A_1'', ''Ann Lee'')] = Some ''A_1'' \<and>
   ''A_1'' \<in> answered_questions state_one_answer \<and>
   current_question_id (select_question_node_with stubborn_judge scenario_engine state_one_answer)
     = Some ''A_2'' \<and>
   ''A_2'' \<notin> answered_questions
                (select_question_node_with stubborn_judge scenario_engine state_one_answer)"
proof -
  have c: "current_question_id
             (select_question_node_with stubborn_judge scenario_engine state_one_answer) = Some ''A_2''"
    by (simp add: select_question_node_with_def state_one_answer_def avail_A1 sort_A1
        stubborn_judge_def Let_def q_ids)
  have "''A_2'' \<notin> answered_questions
                (select_question_node_with stubborn_judge scenario_engine state_one_answer)"
    using selector_never_emits_answered
            [of stubborn_judge scenario_engine state_one_answer "''A_2''"] c
    by blast
  then show ?thesis using c by (simp add: stubborn_judge_def state_one_answer_def)
qed

text \<open>
  Claim C4: selection is deterministic and depends on the answered labels only. The
  judge ignores the conversation history and the current answers it is given, and two
  workflow states with the same answered labels (the answered set together with the
  keys of the answers, which the node merges first) get the same next label from
  \<^verbatim>\<open>_select_question_node\<close>, whatever their messages, answer texts, pending question
  and completion flag are. For states in which every key of the answers is an answered
  label, the answered set alone decides.
\<close>

theorem selection_deterministic:
  "judge_next_question e available h1 a1 = judge_next_question e available h2 a2 \<and>
   (answered_questions s1 \<union> fst ` set (answers s1) =
    answered_questions s2 \<union> fst ` set (answers s2) \<longrightarrow>
      current_question_id (select_question_node e s1) =
      current_question_id (select_question_node e s2)) \<and>
   (answered_questions s1 = answered_questions s2 \<and>
    fst ` set (answers s1) \<subseteq> answered_questions s1 \<and>
    fst ` set (answers s2) \<subseteq> answered_questions s2 \<longrightarrow>
      current_question_id (select_question_node e s1) =
      current_question_id (select_question_node e s2))"
proof -
  have c: "\<And>st. current_question_id (select_question_node e st) =
     (case sort_questions_by_order e
             (get_available_questions e (answered_questions st \<union> fst ` set (answers st))) of
        [] \<Rightarrow> None | q # _ \<Rightarrow> Some (q_id q))"
    by (simp add: select_node_eq split: list.splits)
  have a: "judge_next_question e available h1 a1 = judge_next_question e available h2 a2"
    by (simp add: judge_sorted_head)
  have b: "answered_questions s1 \<union> fst ` set (answers s1) =
    answered_questions s2 \<union> fst ` set (answers s2) \<longrightarrow>
      current_question_id (select_question_node e s1) =
      current_question_id (select_question_node e s2)"
    by (simp add: c)
  have d: "answered_questions s1 = answered_questions s2 \<and>
    fst ` set (answers s1) \<subseteq> answered_questions s1 \<and>
    fst ` set (answers s2) \<subseteq> answered_questions s2 \<longrightarrow>
      current_question_id (select_question_node e s1) =
      current_question_id (select_question_node e s2)"
  proof
    assume h: "answered_questions s1 = answered_questions s2 \<and>
      fst ` set (answers s1) \<subseteq> answered_questions s1 \<and>
      fst ` set (answers s2) \<subseteq> answered_questions s2"
    then have "answered_questions s1 \<union> fst ` set (answers s1) =
      answered_questions s2 \<union> fst ` set (answers s2)" by blast
    with b show "current_question_id (select_question_node e s1) =
      current_question_id (select_question_node e s2)" by blast
  qed
  from a b d show ?thesis by - (intro conjI; assumption)
qed

theorem selection_deterministic_witness:
  "answered_questions state_one_answer \<union> fst ` set (answers state_one_answer) =
   answered_questions state_one_answer_other_history \<union>
     fst ` set (answers state_one_answer_other_history) \<and>
   messages state_one_answer \<noteq> messages state_one_answer_other_history \<and>
   current_question_id (select_question_node scenario_engine state_one_answer) =
   current_question_id (select_question_node scenario_engine state_one_answer_other_history)"
proof -
  have h: "answered_questions state_one_answer \<union> fst ` set (answers state_one_answer) =
   answered_questions state_one_answer_other_history \<union>
     fst ` set (answers state_one_answer_other_history)"
    by (simp add: state_one_answer_def state_one_answer_other_history_def)
  have "current_question_id (select_question_node scenario_engine state_one_answer) =
   current_question_id (select_question_node scenario_engine state_one_answer_other_history)"
    using selection_deterministic [of scenario_engine _ _ _ _ _ state_one_answer
            state_one_answer_other_history] h by blast
  then show ?thesis using h by (simp add: state_one_answer_def state_one_answer_other_history_def)
qed



text \<open>
  Claim C10: the resolver has a hard cap of two. It returns at most two questions, it
  returns none once two or more labels are answered, and so a controller call on a
  session with two answered labels reports completion and offers no question, whatever
  the catalog still holds.
\<close>

theorem resolver_cap_two:
  "length (get_available_questions e answered) \<le> 2 \<and>
   (2 \<le> card answered \<longrightarrow> get_available_questions e answered = []) \<and>
   (finite (answered_questions s) \<and> 2 \<le> card (answered_questions s) \<and>
    (\<forall>ex. mem = Stored ex \<longrightarrow> finite (answered_questions ex)) \<longrightarrow>
      r_flow_complete (process_message e mem m (Some s)) \<and>
      r_current_question_id (process_message e mem m (Some s)) = None \<and>
      next_question (process_message e mem m (Some s)) = None)"
proof -
  have a: "length (get_available_questions e answered) \<le> 2"
    using available_length [of e answered] by (simp add: MAX_QUESTIONS_def)
  have b: "2 \<le> card answered \<longrightarrow> get_available_questions e answered = []"
    by (simp add: available_nil_card MAX_QUESTIONS_def)
  have c: "finite (answered_questions s) \<and> 2 \<le> card (answered_questions s) \<and>
    (\<forall>ex. mem = Stored ex \<longrightarrow> finite (answered_questions ex)) \<longrightarrow>
      r_flow_complete (process_message e mem m (Some s)) \<and>
      r_current_question_id (process_message e mem m (Some s)) = None \<and>
      next_question (process_message e mem m (Some s)) = None"
  proof
    assume h: "finite (answered_questions s) \<and> 2 \<le> card (answered_questions s) \<and>
      (\<forall>ex. mem = Stored ex \<longrightarrow> finite (answered_questions ex))"
    let ?r = "later_interaction e mem m s"
    have "card (answered_questions s) \<noteq> 0" using h by linarith
    then have pm: "process_message e mem m (Some s) = ?r"
      by (intro process_message_later) simp
    have fin: "finite (answered_questions (r_session_state ?r))"
      using h by (simp add: later_finite)
    have "card (answered_questions s) \<le> card (answered_questions (r_session_state ?r))"
      using fin later_answered_mono by (rule card_mono)
    then have "MAX_QUESTIONS \<le> card (answered_questions (r_session_state ?r))"
      using h by (simp add: MAX_QUESTIONS_def)
    then have fc: "r_flow_complete ?r"
      by (simp add: later_flow_complete available_nil_card)
    then have cn: "r_current_question_id ?r = None" by (simp add: later_current_None)
    have nq: "next_question ?r = None"
    proof -
      let ?st = "initial_state_of mem m (record_pending m s)"
      obtain ms where ms: "messages ?st = ms @ [HumanMessage m]"
        using initial_state_messages by blast
      have "current_question_id (workflow e ?st) = None" using cn by (simp add: later_current)
      then have "messages (workflow e ?st) = ms @ [HumanMessage m]"
        by (simp add: workflow_messages_None ms)
      then show ?thesis by (simp add: later_interaction_def Let_def)
    qed
    show "r_flow_complete (process_message e mem m (Some s)) \<and>
      r_current_question_id (process_message e mem m (Some s)) = None \<and>
      next_question (process_message e mem m (Some s)) = None"
      using pm fc cn nq by simp
  qed
  from a b c show ?thesis by - (intro conjI; assumption)
qed

theorem resolver_cap_two_witness:
  "finite (answered_questions session_two_answers) \<and>
   2 \<le> card (answered_questions session_two_answers) \<and>
   ''B_1'' \<notin> answered_questions session_two_answers \<and>
   deps_satisfied scenario_engine (answered_questions session_two_answers) ''B_1'' \<and>
   get_available_questions scenario_engine (answered_questions session_two_answers) = [] \<and>
   r_flow_complete (process_message scenario_engine Unavailable ''1 May 1980'' (Some session_two_answers)) \<and>
   r_current_question_id (process_message scenario_engine Unavailable ''1 May 1980'' (Some session_two_answers)) = None"
proof -
  have h: "finite (answered_questions session_two_answers)"
    "2 \<le> card (answered_questions session_two_answers)"
    by (simp_all add: session_two_answers_def)
  have d: "''B_1'' \<notin> answered_questions session_two_answers"
    "deps_satisfied scenario_engine (answered_questions session_two_answers) ''B_1''"
    by (simp_all add: session_two_answers_def deps_satisfied_def deps_of_def scenario_engine_def)
  note t = resolver_cap_two [of scenario_engine "answered_questions session_two_answers"
      session_two_answers Unavailable "''1 May 1980''"]
  have a: "get_available_questions scenario_engine (answered_questions session_two_answers) = []"
    using t h by blast
  have b: "r_flow_complete (process_message scenario_engine Unavailable ''1 May 1980'' (Some session_two_answers))"
    "r_current_question_id (process_message scenario_engine Unavailable ''1 May 1980'' (Some session_two_answers)) = None"
    using t h by simp_all
  from h d a b show ?thesis by - (intro conjI; assumption)
qed

text \<open>
  Claim C5, as stated: once no question is available for the answered labels, the
  completion flag becomes true and stays true. It fails on a first interaction: with a
  catalog in which nothing is eligible for a fresh session, the controller takes its
  branch for "no questions available", returns the flag false and returns the session
  unchanged, so that every further call does the same.
\<close>

theorem completion_false_on_first_interaction_counterexample:
  "get_available_questions cycle_engine (answered_questions fresh_session) = [] \<and>
   r_flow_complete (process_message cycle_engine Unavailable ''Hello'' (Some fresh_session)) = False \<and>
   r_session_state (process_message cycle_engine Unavailable ''Hello'' (Some fresh_session)) =
     fresh_session"
  by (simp add: process_message_def fresh_session_def first_interaction_def avail_cycle
      sort_questions_by_order_def)

text \<open>
  Claim C5, amended: in a call that is not a first interaction (a label is answered or
  a question is pending), the flag returned is true exactly when no question is
  available for the answered labels of the session returned, and those include the
  answered labels of the session given. Once a session has an answered label and no
  question is available for its answered labels, every later call of the session
  returns the flag true and no question.
\<close>

theorem completion_monotonic_after_first_answer:
  assumes "finite (answered_questions s)"
      and "answered_questions s \<noteq> {} \<or> current_question_id s \<noteq> None"
      and "\<forall>mem m ex. (mem, m) \<in> set ((mem0, m0) # calls) \<and> mem = Stored ex \<longrightarrow>
             finite (answered_questions ex)"
  shows "r_flow_complete (process_message e mem0 m0 (Some s)) =
           (get_available_questions e
              (answered_questions (r_session_state (process_message e mem0 m0 (Some s)))) = []) \<and>
         answered_questions s \<subseteq>
           answered_questions (r_session_state (process_message e mem0 m0 (Some s))) \<and>
         (answered_questions s \<noteq> {} \<and> get_available_questions e (answered_questions s) = [] \<longrightarrow>
            (\<forall>r \<in> set (run_session e s ((mem0, m0) # calls)).
               r_flow_complete r \<and> r_current_question_id r = None))"
proof -
  let ?r = "later_interaction e mem0 m0 s"
  have "\<not> (card (answered_questions s) = 0 \<and> current_question_id s = None)"
    using assms(1,2) by auto
  then have pm: "process_message e mem0 m0 (Some s) = ?r"
    by (rule process_message_later)
  have a: "r_flow_complete ?r =
      (get_available_questions e (answered_questions (r_session_state ?r)) = [])"
    by (rule later_flow_complete)
  have b: "answered_questions s \<subseteq> answered_questions (r_session_state ?r)"
    by (rule later_answered_mono)
  have d: "answered_questions s \<noteq> {} \<and> get_available_questions e (answered_questions s) = [] \<longrightarrow>
            (\<forall>r \<in> set (run_session e s ((mem0, m0) # calls)).
               r_flow_complete r \<and> r_current_question_id r = None)"
    using run_session_all_complete [OF assms(1) _ _ assms(3)] by blast
  from a b d show ?thesis unfolding pm by - (intro conjI; assumption)
qed

theorem completion_monotonic_after_first_answer_witness:
  "finite (answered_questions session_two_answers) \<and>
   answered_questions session_two_answers \<noteq> {} \<and>
   get_available_questions scenario_engine (answered_questions session_two_answers) = [] \<and>
   r_flow_complete (process_message scenario_engine (Stored stored_state) ''thanks''
                      (Some session_two_answers)) \<and>
   list_all r_flow_complete
     (run_session scenario_engine session_two_answers
        [(Stored stored_state, ''thanks''), (Unavailable, ''bye'')])"
proof -
  have h: "finite (answered_questions session_two_answers)"
    "answered_questions session_two_answers \<noteq> {} \<or> current_question_id session_two_answers \<noteq> None"
    "\<forall>mem m ex. (mem, m) \<in> set ((Stored stored_state, ''thanks'') # [(Unavailable, ''bye'')]) \<and>
        mem = Stored ex \<longrightarrow> finite (answered_questions ex)"
    by (simp_all add: session_two_answers_def stored_state_def)
  have ne: "answered_questions session_two_answers \<noteq> {}"
    by (simp add: session_two_answers_def)
  have a: "get_available_questions scenario_engine (answered_questions session_two_answers) = []"
    by (simp add: session_two_answers_def get_available_questions_def MAX_QUESTIONS_def)
  note t = completion_monotonic_after_first_answer [OF h, of scenario_engine]
  have all: "\<forall>r \<in> set (run_session scenario_engine session_two_answers
        [(Stored stored_state, ''thanks''), (Unavailable, ''bye'')]). r_flow_complete r"
    using t ne a by blast
  then have b: "r_flow_complete (process_message scenario_engine (Stored stored_state) ''thanks''
                      (Some session_two_answers))"
    by (simp add: Let_def)
  have c: "list_all r_flow_complete
     (run_session scenario_engine session_two_answers
        [(Stored stored_state, ''thanks''), (Unavailable, ''bye'')])"
    using all by (simp only: list_all_iff)
  from h(1) ne a b c show ?thesis by - (intro conjI; assumption)
qed

section \<open>The claims about loading and saving\<close>

text \<open>
  Claim C7, as stated: loading a catalog with a dependency cycle fails with a catalog
  error. It fails on the code: the document whose two questions depend on each other
  loads, and the engine holds the cycle.
\<close>

theorem cycle_loads_counterexample:
  "deps_of cycle_engine ''X_1'' = [''Y_1''] \<and>
   deps_of cycle_engine ''Y_1'' = [''X_1''] \<and>
   init_engine (Document cycle_doc) = Inr cycle_engine"
  by (simp add: init_engine_def engine_of_cycle_doc) (simp add: deps_of_def cycle_engine_def)

text \<open>
  Claim C7, amended: the load does not inspect the dependency relation. A document that
  parses always loads, and dependencies given in the file are stored as they are; with
  two labels that depend on each other the load succeeds, and the resolver returns
  neither of them as long as neither is answered.
\<close>

theorem load_never_checks_dependencies:
  "init_engine (Document d) = Inr (engine_of_doc d) \<and>
   (doc_question_dependencies d \<noteq> [] \<longrightarrow>
      dependencies (engine_of_doc d) = doc_question_dependencies d) \<and>
   (y \<in> set (deps_of e x) \<and> x \<in> set (deps_of e y) \<and> x \<notin> A \<and> y \<notin> A \<longrightarrow>
      x \<notin> q_id ` set (get_available_questions e A) \<and>
      y \<notin> q_id ` set (get_available_questions e A))"
proof -
  have a: "init_engine (Document d) = Inr (engine_of_doc d)" by (simp add: init_engine_def)
  have b: "doc_question_dependencies d \<noteq> [] \<longrightarrow>
      dependencies (engine_of_doc d) = doc_question_dependencies d"
    by (simp add: engine_of_doc_def Let_def)
  have c: "y \<in> set (deps_of e x) \<and> x \<in> set (deps_of e y) \<and> x \<notin> A \<and> y \<notin> A \<longrightarrow>
      x \<notin> q_id ` set (get_available_questions e A) \<and>
      y \<notin> q_id ` set (get_available_questions e A)"
    using cycle_not_available [of y e x A] cycle_not_available [of x e y A] by blast
  from a b c show ?thesis by - (intro conjI; assumption)
qed

theorem load_never_checks_dependencies_witness:
  "doc_question_dependencies cycle_doc \<noteq> [] \<and>
   ''Y_1'' \<in> set (deps_of cycle_engine ''X_1'') \<and>
   ''X_1'' \<in> set (deps_of cycle_engine ''Y_1'') \<and>
   init_engine (Document cycle_doc) = Inr cycle_engine \<and>
   dependencies cycle_engine = [(''X_1'', [''Y_1'']), (''Y_1'', [''X_1''])] \<and>
   ''X_1'' \<notin> q_id ` set (get_available_questions cycle_engine {}) \<and>
   ''Y_1'' \<notin> q_id ` set (get_available_questions cycle_engine {})"
proof -
  have h: "doc_question_dependencies cycle_doc \<noteq> []"
    "''Y_1'' \<in> set (deps_of cycle_engine ''X_1'')"
    "''X_1'' \<in> set (deps_of cycle_engine ''Y_1'')"
    by (simp_all add: cycle_doc_def deps_of_def cycle_engine_def)
  note t = load_never_checks_dependencies [of cycle_doc "''Y_1''" cycle_engine "''X_1''" "{}"]
  have a: "init_engine (Document cycle_doc) = Inr cycle_engine"
    using t by (simp add: engine_of_cycle_doc)
  have "dependencies (engine_of_doc cycle_doc) = doc_question_dependencies cycle_doc"
    using t h(1) by blast
  then have b: "dependencies cycle_engine = [(''X_1'', [''Y_1'']), (''Y_1'', [''X_1''])]"
    by (simp only: engine_of_cycle_doc) (simp add: cycle_doc_def)
  have c: "''X_1'' \<notin> q_id ` set (get_available_questions cycle_engine {})"
    "''Y_1'' \<notin> q_id ` set (get_available_questions cycle_engine {})"
    using t h(2,3) by simp_all
  from h a b c show ?thesis by - (intro conjI; assumption)
qed







end
